theory Spec2Isabelle
  imports Main
begin

section \<open>Data model (shared/schema.ts)\<close>

text \<open>
  Identifiers are the varchar primary keys filled by \<open>gen_random_uuid()\<close>; timestamps are
  instants on one time line. The integer columns are modelled as unbounded integers: the
  range check of the database's four-byte integers is outside this model.
\<close>

type_synonym ident = string
type_synonym timestamp = int

datatype seatStatusEnum = AVAILABLE | BOOKED | PENDING

datatype bookingStatusEnum = B_PENDING | CONFIRMED | FAILED

record show_row =
  show_id :: ident
  show_name :: string
  startTime :: timestamp
  totalSeats :: int
  availableSeats :: int
  show_createdAt :: timestamp

record seat_row =
  seat_id :: ident
  seat_showId :: ident
  seatNumber :: int
  status :: seatStatusEnum
  lockedUntil :: "timestamp option"

record booking_row =
  booking_id :: ident
  booking_showId :: ident
  userId :: "ident option"
  seatIds :: "ident list"
  booking_status :: bookingStatusEnum
  createdAt :: timestamp
  expiresAt :: "timestamp option"

text \<open>The three tables, each a list of rows in storage order.\<close>

record database =
  tbl_shows :: "show_row list"
  tbl_seats :: "seat_row list"
  tbl_bookings :: "booking_row list"

definition empty_db :: database where
  "empty_db = \<lparr>tbl_shows = [], tbl_seats = [], tbl_bookings = []\<rparr>"

text \<open>
  What a caller can catch: the three errors that \<open>attemptBooking\<close> constructs itself;
  \<open>DB_ERROR\<close> for any other error raised while a statement is built or run (a violated
  primary or foreign key, a statement the database rejects, an insert without values that
  the query builder rejects), which the outer \<open>catch\<close> of \<open>attemptBooking\<close> rethrows
  after \<open>ROLLBACK\<close>; and \<open>NOT_FOUND\<close> of the spec's taxonomy, for an unknown booking.
\<close>

datatype error = SEATS_LOCKED | INVALID_SEATS | SEATS_UNAVAILABLE | DB_ERROR | NOT_FOUND

section \<open>Transactions on a pooled client\<close>

text \<open>
  \<open>BEGIN\<close> remembers the committed state; statements work on \<open>current\<close>;
  \<open>ROLLBACK\<close> gives the remembered state back and \<open>COMMIT\<close> installs \<open>current\<close>.
\<close>

record txn =
  snapshot :: database
  current :: database

definition tx_begin :: "database \<Rightarrow> txn" where
  "tx_begin db = \<lparr>snapshot = db, current = db\<rparr>"

definition tx_exec :: "(database \<Rightarrow> database) \<Rightarrow> txn \<Rightarrow> txn" where
  "tx_exec stmt tx = tx\<lparr>current := stmt (current tx)\<rparr>"

definition tx_rollback :: "txn \<Rightarrow> database" where
  "tx_rollback tx = snapshot tx"

definition tx_commit :: "txn \<Rightarrow> database" where
  "tx_commit tx = current tx"

section \<open>Statements\<close>

text \<open>\<open>UPDATE seats SET ... WHERE ...\<close>: every row the predicate selects is rewritten.\<close>

definition update_seats :: "(seat_row \<Rightarrow> bool) \<Rightarrow> (seat_row \<Rightarrow> seat_row) \<Rightarrow> database \<Rightarrow> database" where
  "update_seats wh st db = db\<lparr>tbl_seats := map (\<lambda>s. if wh s then st s else s) (tbl_seats db)\<rparr>"

definition update_shows :: "(show_row \<Rightarrow> bool) \<Rightarrow> (show_row \<Rightarrow> show_row) \<Rightarrow> database \<Rightarrow> database" where
  "update_shows wh st db = db\<lparr>tbl_shows := map (\<lambda>s. if wh s then st s else s) (tbl_shows db)\<rparr>"

definition update_bookings :: "(booking_row \<Rightarrow> bool) \<Rightarrow> (booking_row \<Rightarrow> booking_row) \<Rightarrow> database \<Rightarrow> database" where
  "update_bookings wh st db = db\<lparr>tbl_bookings := map (\<lambda>b. if wh b then st b else b) (tbl_bookings db)\<rparr>"

text \<open>
  \<open>INSERT\<close> into a table of shared/schema.ts: \<open>id\<close> is declared \<open>primaryKey()\<close> in
  all three tables, and \<open>show_id\<close> of seats and of bookings is declared
  \<open>references(() => shows.id, { onDelete: "cascade" })\<close>. The statement fails as a whole
  when a key is violated.
\<close>

definition insert_show :: "show_row \<Rightarrow> database \<Rightarrow> error + database" where
  "insert_show r db =
     (if show_id r \<in> set (map show_id (tbl_shows db)) then Inl DB_ERROR
      else Inr (db\<lparr>tbl_shows := tbl_shows db @ [r]\<rparr>))"

definition insert_seats :: "seat_row list \<Rightarrow> database \<Rightarrow> error + database" where
  "insert_seats rs db =
     (if \<not> distinct (map seat_id rs)
         \<or> (\<exists>r \<in> set rs. seat_id r \<in> set (map seat_id (tbl_seats db)))
         \<or> (\<exists>r \<in> set rs. seat_showId r \<notin> set (map show_id (tbl_shows db)))
      then Inl DB_ERROR
      else Inr (db\<lparr>tbl_seats := tbl_seats db @ rs\<rparr>))"

definition insert_booking :: "booking_row \<Rightarrow> database \<Rightarrow> error + database" where
  "insert_booking r db =
     (if booking_id r \<in> set (map booking_id (tbl_bookings db))
         \<or> booking_showId r \<notin> set (map show_id (tbl_shows db))
      then Inl DB_ERROR
      else Inr (db\<lparr>tbl_bookings := tbl_bookings db @ [r]\<rparr>))"

section \<open>Storage operations (server/storage.ts)\<close>

subsection \<open>Shows and seats\<close>

text \<open>
  \<open>createSeats(showId, count)\<close>: rows numbered \<open>1..count\<close>, status \<open>AVAILABLE\<close>, the
  lock expiry left at its default \<open>NULL\<close>. \<open>uuid i\<close> is the identifier the database
  generates for the \<open>i\<close>-th row. A count below one gives an empty list of values, which
  the query builder's \<open>values([])\<close> rejects before any statement is sent: the call raises
  and the table is as it was.
\<close>

definition seatValues :: "(nat \<Rightarrow> ident) \<Rightarrow> ident \<Rightarrow> int \<Rightarrow> seat_row list" where
  "seatValues uuid showId count =
     map (\<lambda>i. \<lparr>seat_id = uuid i, seat_showId = showId, seatNumber = int i + 1,
               status = AVAILABLE, lockedUntil = None\<rparr>) [0 ..< nat count]"

definition createSeats :: "(nat \<Rightarrow> ident) \<Rightarrow> ident \<Rightarrow> int \<Rightarrow> database \<Rightarrow> (error + seat_row list) \<times> database" where
  "createSeats uuid showId count db =
     (if seatValues uuid showId count = [] then (Inl DB_ERROR, db)
      else case insert_seats (seatValues uuid showId count) db of
             Inl e \<Rightarrow> (Inl e, db)
           | Inr db' \<Rightarrow> (Inr (seatValues uuid showId count), db'))"

record insertShow =
  is_name :: string
  is_startTime :: timestamp
  is_totalSeats :: int

text \<open>
  \<open>createShow\<close>: the show row is inserted with \<open>availableSeats = totalSeats\<close> and
  committed; then the seats are created. The two statements are not in one transaction, so
  a failure of the second (also the rejected empty insert for \<open>totalSeats\<close> below one)
  leaves the show row in place and the call raises.
\<close>

definition createShow :: "ident \<Rightarrow> (nat \<Rightarrow> ident) \<Rightarrow> timestamp \<Rightarrow> insertShow \<Rightarrow> database \<Rightarrow> (error + show_row) \<times> database" where
  "createShow newId uuid now ins db =
     (let row = \<lparr>show_id = newId, show_name = is_name ins, startTime = is_startTime ins,
                  totalSeats = is_totalSeats ins, availableSeats = is_totalSeats ins,
                  show_createdAt = now\<rparr>
      in case insert_show row db of
           Inl e \<Rightarrow> (Inl e, db)
         | Inr db1 \<Rightarrow>
             (case createSeats uuid (show_id row) (is_totalSeats ins) db1 of
                (Inl e, db2) \<Rightarrow> (Inl e, db2)
              | (Inr _, db2) \<Rightarrow> (Inr row, db2)))"

text \<open>\<open>updateShowAvailableSeats(id, delta)\<close>.\<close>

definition updateShowAvailableSeats :: "ident \<Rightarrow> int \<Rightarrow> database \<Rightarrow> database" where
  "updateShowAvailableSeats sid delta =
     update_shows (\<lambda>s. show_id s = sid) (\<lambda>s. s\<lparr>availableSeats := availableSeats s + delta\<rparr>)"

subsection \<open>Holding and releasing seats\<close>

text \<open>
  The condition of the lock query of \<open>lockSeats\<close>:
  \<open>status = 'AVAILABLE' OR (status = 'PENDING' AND locked_until < NOW())\<close>; a comparison
  with \<open>NULL\<close> selects nothing.
\<close>

definition expired :: "timestamp \<Rightarrow> seat_row \<Rightarrow> bool" where
  "expired now s = (status s = PENDING \<and> (case lockedUntil s of None \<Rightarrow> False | Some t \<Rightarrow> t < now))"

definition acquirable :: "timestamp \<Rightarrow> seat_row \<Rightarrow> bool" where
  "acquirable now s = (status s = AVAILABLE \<or> expired now s)"

text \<open>
  \<open>SELECT ... FOR UPDATE NOWAIT\<close>: \<open>rowLocks\<close> are the seat rows that other transactions
  in flight have locked. If a selected row is among them the statement raises an error
  (\<open>None\<close>); otherwise it returns the selected rows.
\<close>

definition select_for_update_nowait :: "ident list \<Rightarrow> (seat_row \<Rightarrow> bool) \<Rightarrow> database \<Rightarrow> seat_row list option" where
  "select_for_update_nowait rowLocks wh db =
     (let rows = filter wh (tbl_seats db)
      in if \<exists>r \<in> set rows. seat_id r \<in> set rowLocks then None else Some rows)"

definition lockSeats :: "ident list \<Rightarrow> timestamp \<Rightarrow> ident list \<Rightarrow> timestamp \<Rightarrow> database \<Rightarrow> bool \<times> database" where
  "lockSeats rowLocks now ids until db =
     (let tx = tx_begin db
      in case select_for_update_nowait rowLocks
                (\<lambda>s. seat_id s \<in> set ids \<and> acquirable now s) (current tx) of
           None \<Rightarrow> (False, tx_rollback tx)
         | Some lockResult \<Rightarrow>
             if length lockResult \<noteq> length ids then (False, tx_rollback tx)
             else
               let tx1 = tx_exec (update_seats (\<lambda>s. seat_id s \<in> set ids)
                                    (\<lambda>s. s\<lparr>status := PENDING, lockedUntil := Some until\<rparr>)) tx
               in (True, tx_commit tx1))"

text \<open>
  \<open>unlockSeats\<close> and \<open>markSeatsAsBooked\<close> do not pass the list of identifiers as one
  array parameter, as the raw queries of \<open>lockSeats\<close> and \<open>attemptBooking\<close> do. They
  write \<open>sql`${seats.id} = ANY(${seatIds})`\<close>, and the query builder renders a list
  interpolated into its \<open>sql\<close> template as a parenthesised list with one parameter for
  each element. So the database receives \<open>id = ANY(())\<close> for the empty list, which is a
  syntax error; \<open>id = ANY(($1, $2, ...))\<close> for two or more identifiers, a row where an
  array is required, which it rejects; and \<open>id = ANY(($1))\<close> for a single identifier,
  where the one string is read as the text of an array. \<open>array_in\<close> is that reading, the
  database's conversion of a text to an array, which is not code of this repository:
  \<open>None\<close> when the text is not an array literal (no braces), and the statement raises.
  \<open>any_parameter\<close> gives the array the statement compares with, or \<open>None\<close> when the
  statement raises.
\<close>

definition any_parameter :: "(string \<Rightarrow> ident list option) \<Rightarrow> ident list \<Rightarrow> ident list option" where
  "any_parameter array_in ids = (case ids of [x] \<Rightarrow> array_in x | _ \<Rightarrow> None)"

definition unlockSeats :: "(string \<Rightarrow> ident list option) \<Rightarrow> ident list \<Rightarrow> database \<Rightarrow> (error + unit) \<times> database" where
  "unlockSeats array_in ids db =
     (case any_parameter array_in ids of
        None \<Rightarrow> (Inl DB_ERROR, db)
      | Some arr \<Rightarrow>
          (Inr (), update_seats (\<lambda>s. seat_id s \<in> set arr \<and> status s = PENDING)
                     (\<lambda>s. s\<lparr>status := AVAILABLE, lockedUntil := None\<rparr>) db))"

definition markSeatsAsBooked :: "(string \<Rightarrow> ident list option) \<Rightarrow> ident list \<Rightarrow> database \<Rightarrow> (error + unit) \<times> database" where
  "markSeatsAsBooked array_in ids db =
     (case any_parameter array_in ids of
        None \<Rightarrow> (Inl DB_ERROR, db)
      | Some arr \<Rightarrow>
          (Inr (), update_seats (\<lambda>s. seat_id s \<in> set arr)
                     (\<lambda>s. s\<lparr>status := BOOKED, lockedUntil := None\<rparr>) db))"

text \<open>\<open>releaseExpiredLocks\<close> returns the number of rows the update rewrote.\<close>

definition releaseExpiredLocks :: "timestamp \<Rightarrow> database \<Rightarrow> nat \<times> database" where
  "releaseExpiredLocks now db =
     (length (filter (expired now) (tbl_seats db)),
      update_seats (expired now) (\<lambda>s. s\<lparr>status := AVAILABLE, lockedUntil := None\<rparr>) db)"

subsection \<open>Bookings\<close>

text \<open>
  \<open>createBooking\<close>: the row expires two minutes after \<open>Date.now()\<close>; a status left
  out of the insert takes the column default \<open>PENDING\<close>.
\<close>

record insertBooking =
  ib_showId :: ident
  ib_userId :: "ident option"
  ib_seatIds :: "ident list"
  ib_status :: "bookingStatusEnum option"

definition createBooking :: "ident \<Rightarrow> timestamp \<Rightarrow> insertBooking \<Rightarrow> database \<Rightarrow> (error + booking_row) \<times> database" where
  "createBooking newId now ins db =
     (let row = \<lparr>booking_id = newId, booking_showId = ib_showId ins, userId = ib_userId ins,
                 seatIds = ib_seatIds ins,
                 booking_status = (case ib_status ins of None \<Rightarrow> B_PENDING | Some st \<Rightarrow> st),
                 createdAt = now,
                 expiresAt = Some (now + 2 * 60 * 1000)\<rparr>
      in case insert_booking row db of
           Inl e \<Rightarrow> (Inl e, db)
         | Inr db' \<Rightarrow> (Inr row, db'))"

definition updateBookingStatus :: "ident \<Rightarrow> bookingStatusEnum \<Rightarrow> database \<Rightarrow> booking_row option \<times> database" where
  "updateBookingStatus bid st db =
     (let db' = update_bookings (\<lambda>b. booking_id b = bid) (\<lambda>b. b\<lparr>booking_status := st\<rparr>) db
      in (case filter (\<lambda>b. booking_id b = bid) (tbl_bookings db') of
            [] \<Rightarrow> None
          | b # _ \<Rightarrow> Some b,
          db'))"

definition getBookingById :: "ident \<Rightarrow> database \<Rightarrow> booking_row option" where
  "getBookingById bid db =
     (case filter (\<lambda>b. booking_id b = bid) (tbl_bookings db) of [] \<Rightarrow> None | b # _ \<Rightarrow> Some b)"

definition getExpiredPendingBookings :: "timestamp \<Rightarrow> database \<Rightarrow> booking_row list" where
  "getExpiredPendingBookings now db =
     filter (\<lambda>b. booking_status b = B_PENDING
                 \<and> (case expiresAt b of None \<Rightarrow> False | Some t \<Rightarrow> t < now)) (tbl_bookings db)"

subsection \<open>The atomic booking\<close>

text \<open>
  \<open>attemptBooking\<close>, statement by statement. \<open>rowLocks\<close> and \<open>now\<close> are as above and
  \<open>newId\<close> is the identifier generated for the booking row; \<open>now\<close> stands both for
  \<open>new Date()\<close> in the test on a locked row and for \<open>NOW()\<close> in the insert. The test on a locked row
  reads \<open>status !== 'AVAILABLE' && !(status === 'PENDING' && locked_until && locked_until < now)\<close>;
  \<open>userId || null\<close> turns an empty string into \<open>NULL\<close>.
\<close>

definition attemptBooking :: "ident list \<Rightarrow> timestamp \<Rightarrow> ident \<Rightarrow> ident \<Rightarrow> ident list \<Rightarrow> ident option \<Rightarrow> database \<Rightarrow> (error + booking_row) \<times> database" where
  "attemptBooking rowLocks now newId showId ids uid db =
     (let tx = tx_begin db
      in case select_for_update_nowait rowLocks
                (\<lambda>s. seat_id s \<in> set ids \<and> seat_showId s = showId) (current tx) of
           None \<Rightarrow> (Inl SEATS_LOCKED, tx_rollback tx)
         | Some lockResult \<Rightarrow>
             if length lockResult \<noteq> length ids then (Inl INVALID_SEATS, tx_rollback tx)
             else
               let unavailableSeats =
                     filter (\<lambda>seat. status seat \<noteq> AVAILABLE
                                \<and> \<not> (status seat = PENDING
                                     \<and> (case lockedUntil seat of None \<Rightarrow> False | Some t \<Rightarrow> t < now)))
                            lockResult
               in if length unavailableSeats > 0 then (Inl SEATS_UNAVAILABLE, tx_rollback tx)
                  else
                    let tx1 = tx_exec (update_seats (\<lambda>s. seat_id s \<in> set ids)
                                         (\<lambda>s. s\<lparr>status := BOOKED, lockedUntil := None\<rparr>)) tx;
                        tx2 = tx_exec (update_shows (\<lambda>s. show_id s = showId)
                                         (\<lambda>s. s\<lparr>availableSeats := availableSeats s - int (length ids)\<rparr>)) tx1;
                        row = \<lparr>booking_id = newId, booking_showId = showId,
                               userId = (case uid of None \<Rightarrow> None
                                         | Some u \<Rightarrow> if u = [] then None else Some u),
                               seatIds = ids, booking_status = CONFIRMED, createdAt = now,
                               expiresAt = None\<rparr>
                    in case insert_booking row (current tx2) of
                         Inl e \<Rightarrow> (Inl e, tx_rollback tx2)
                       | Inr db3 \<Rightarrow> (Inr row, tx_commit (tx2\<lparr>current := db3\<rparr>)))"

section \<open>The lease reaper's second sweep\<close>

text \<open>
  Modelled from the spec: \<open>fail(bookingId)\<close> of the deferred mode, which is not among the
  sources. The spec: it "releases the associated seats (release of the seat lock manager)
  and sets the Booking to FAILED", in this order, and an unknown booking is \<open>NOT_FOUND\<close>.
  The release is \<open>unlockSeats\<close> and the status change is \<open>updateBookingStatus\<close>, both
  from the storage layer; when the release raises, the status change is not reached.
\<close>

definition failBooking :: "(string \<Rightarrow> ident list option) \<Rightarrow> ident \<Rightarrow> database \<Rightarrow> (error + unit) \<times> database" where
  "failBooking array_in bid db =
     (case getBookingById bid db of
        None \<Rightarrow> (Inl NOT_FOUND, db)
      | Some b \<Rightarrow>
          (case unlockSeats array_in (seatIds b) db of
             (Inl e, db1) \<Rightarrow> (Inl e, db1)
           | (Inr _, db1) \<Rightarrow> (Inr (), snd (updateBookingStatus bid FAILED db1))))"

text \<open>
  Modelled from the spec: sweep 2 of the lease reaper, whose module is not among the
  sources. The spec: "find all Bookings with status PENDING whose expiry deadline has
  passed; for each, invoke fail(bookingId)", and the reaper "logs but does not propagate
  per-item failures": after a failure it goes on with the next booking. The query is
  \<open>getExpiredPendingBookings\<close> of the storage layer.
\<close>

definition reapExpiredBookings :: "(string \<Rightarrow> ident list option) \<Rightarrow> timestamp \<Rightarrow> database \<Rightarrow> database" where
  "reapExpiredBookings array_in now db =
     foldl (\<lambda>d b. snd (failBooking array_in (booking_id b) d)) db
       (getExpiredPendingBookings now db)"

section \<open>Constraints and invariants\<close>

text \<open>The primary key of seats, and the foreign key from seats to shows.\<close>

definition pk_seats :: "database \<Rightarrow> bool" where
  "pk_seats db = distinct (map seat_id (tbl_seats db))"

definition fk_seats :: "database \<Rightarrow> bool" where
  "fk_seats db = (\<forall>s \<in> set (tbl_seats db). seat_showId s \<in> set (map show_id (tbl_shows db)))"

text \<open>The lock expiry of a seat is set exactly when the seat is \<open>PENDING\<close>.\<close>

definition seat_inv :: "database \<Rightarrow> bool" where
  "seat_inv db = (\<forall>s \<in> set (tbl_seats db). (lockedUntil s \<noteq> None) = (status s = PENDING))"

text \<open>The cached counter of every show against the count of its booked seats.\<close>

definition booked_count :: "ident \<Rightarrow> database \<Rightarrow> nat" where
  "booked_count sid db =
     length (filter (\<lambda>s. seat_showId s = sid \<and> status s = BOOKED) (tbl_seats db))"

definition counter_inv :: "database \<Rightarrow> bool" where
  "counter_inv db =
     (\<forall>sh \<in> set (tbl_shows db).
        availableSeats sh = totalSeats sh - int (booked_count (show_id sh) db))"

section \<open>Sequences of committed operations\<close>

datatype operation =
    CreateShow ident "nat \<Rightarrow> ident" timestamp insertShow
  | AttemptBooking "ident list" timestamp ident ident "ident list" "ident option"
  | LockSeats "ident list" timestamp "ident list" timestamp
  | UnlockSeats "ident list"
  | ReleaseExpiredLocks timestamp
  | CreateBooking ident timestamp insertBooking
  | ReapExpiredBookings timestamp

text \<open>
  The state each operation leaves, whether it returns or raises; \<open>array_in\<close> is the
  database's conversion of a text to an array, as above.
\<close>

fun perform :: "(string \<Rightarrow> ident list option) \<Rightarrow> operation \<Rightarrow> database \<Rightarrow> database" where
  "perform array_in (CreateShow newId uuid now ins) db = snd (createShow newId uuid now ins db)"
| "perform array_in (AttemptBooking rowLocks now newId showId ids uid) db =
     snd (attemptBooking rowLocks now newId showId ids uid db)"
| "perform array_in (LockSeats rowLocks now ids until) db =
     snd (lockSeats rowLocks now ids until db)"
| "perform array_in (UnlockSeats ids) db = snd (unlockSeats array_in ids db)"
| "perform array_in (ReleaseExpiredLocks now) db = snd (releaseExpiredLocks now db)"
| "perform array_in (CreateBooking newId now ins) db = snd (createBooking newId now ins db)"
| "perform array_in (ReapExpiredBookings now) db = reapExpiredBookings array_in now db"

fun run :: "(string \<Rightarrow> ident list option) \<Rightarrow> operation list \<Rightarrow> database \<Rightarrow> database" where
  "run array_in [] db = db"
| "run array_in (op # ops) db = run array_in ops (perform array_in op db)"

section \<open>Auxiliary notions for the proofs\<close>

text \<open>The booking row that \<open>attemptBooking\<close> inserts.\<close>

definition confirmed_row :: "timestamp \<Rightarrow> ident \<Rightarrow> ident \<Rightarrow> ident list \<Rightarrow> ident option \<Rightarrow> booking_row" where
  "confirmed_row now newId showId ids uid =
     \<lparr>booking_id = newId, booking_showId = showId,
      userId = (case uid of None \<Rightarrow> None | Some u \<Rightarrow> if u = [] then None else Some u),
      seatIds = ids, booking_status = CONFIRMED, createdAt = now, expiresAt = None\<rparr>"




text \<open>
  A state is consistent when the keys of the seats table hold and every counter agrees
  with the booked seats of its show.
\<close>

definition consistent :: "database \<Rightarrow> bool" where
  "consistent db = (pk_seats db \<and> fk_seats db \<and> counter_inv db)"

section \<open>Example states\<close>

text \<open>
  A fragment of the database's conversion of a text to an array, enough for the examples:
  the text \<open>{s1,s2}\<close> is the array of \<open>s1\<close> and \<open>s2\<close>, and no other text is read as
  an array.
\<close>

definition array_in0 :: "string \<Rightarrow> ident list option" where
  "array_in0 x = (if x = ''{s1,s2}'' then Some [''s1'', ''s2''] else None)"

text \<open>One show with a free seat, a seat whose hold ran out at 50, and a booked seat.\<close>

definition db0 :: database where
  "db0 = \<lparr>tbl_shows = [\<lparr>show_id = ''sh'', show_name = ''x'', startTime = 900,
                         totalSeats = 3, availableSeats = 2, show_createdAt = 0\<rparr>],
          tbl_seats = [\<lparr>seat_id = ''s1'', seat_showId = ''sh'', seatNumber = 1,
                         status = AVAILABLE, lockedUntil = None\<rparr>,
                       \<lparr>seat_id = ''s2'', seat_showId = ''sh'', seatNumber = 2,
                         status = PENDING, lockedUntil = Some 50\<rparr>,
                       \<lparr>seat_id = ''s3'', seat_showId = ''sh'', seatNumber = 3,
                         status = BOOKED, lockedUntil = None\<rparr>],
          tbl_bookings = []\<rparr>"


text \<open>
  A run from the empty database: a show with three seats is created, one request books
  the first two seats, and a second request asks for the second and third.
\<close>

definition uuid0 :: "nat \<Rightarrow> ident" where
  "uuid0 i = ''s'' @ replicate (Suc i) CHR ''i''"

definition ins0 :: insertShow where
  "ins0 = \<lparr>is_name = ''x'', is_startTime = 900, is_totalSeats = 3\<rparr>"

definition ops0 :: "operation list" where
  "ops0 = [CreateShow ''sh'' uuid0 0 ins0,
           AttemptBooking [] 10 ''a'' ''sh'' [''si'', ''sii''] None,
           AttemptBooking [] 11 ''b'' ''sh'' [''sii'', ''siii''] None]"

section \<open>Release of held seats\<close>

lemma any_parameter_list: "length ids \<noteq> 1 \<Longrightarrow> any_parameter array_in ids = None"
  by (cases ids) (simp_all add: any_parameter_def split: list.splits)

lemma any_parameter_single: "any_parameter array_in [x] = array_in x"
  by (simp add: any_parameter_def)

text \<open>
  A release of no seat or of two or more seats raises and writes nothing, and so does the
  release of one seat whose identifier is not the text of an array.
\<close>

lemma unlockSeats_list:
  "length ids \<noteq> 1 \<Longrightarrow> unlockSeats array_in ids db = (Inl DB_ERROR, db)"
  by (simp add: unlockSeats_def any_parameter_list)

lemma unlockSeats_single_text:
  "array_in x = None \<Longrightarrow> unlockSeats array_in [x] db = (Inl DB_ERROR, db)"
  by (simp add: unlockSeats_def any_parameter_single)

text \<open>
  C7. The claim: a release returns a held seat to \<open>AVAILABLE\<close>, is a no-op without
  error on a seat that is \<open>AVAILABLE\<close> or \<open>BOOKED\<close>, and may be repeated. The code at
  a request for the three seats of the example state, of which the second is held: the
  statement is rejected, the call raises, and the state is as before, so the held seat is
  still \<open>PENDING\<close>. This holds whatever the database reads as an array.
\<close>

theorem unlockSeats_rejected_statement:
  "unlockSeats array_in [''s1'', ''s2'', ''s3''] db0 = (Inl DB_ERROR, db0)
   \<and> seat_id (tbl_seats db0 ! 1) = ''s2'' \<and> status (tbl_seats db0 ! 1) = PENDING"
  by (simp add: unlockSeats_list) (simp add: db0_def)

section \<open>Reaper sweep 1\<close>

text \<open>
  C8. \<open>releaseExpiredLocks\<close> rewrites exactly the seats that are \<open>PENDING\<close> with an
  expiry before \<open>now\<close>, to \<open>AVAILABLE\<close> with the expiry cleared; every other seat, the
  shows and the bookings are as before; the number returned is the number of seats so
  rewritten; and a second run at the same instant returns zero and changes nothing.
\<close>

theorem releaseExpiredLocks_sweep:
  "length (tbl_seats (snd (releaseExpiredLocks now db))) = length (tbl_seats db)
   \<and> (\<forall>i < length (tbl_seats db).
         tbl_seats (snd (releaseExpiredLocks now db)) ! i =
           (if status (tbl_seats db ! i) = PENDING
               \<and> (\<exists>t. lockedUntil (tbl_seats db ! i) = Some t \<and> t < now)
            then (tbl_seats db ! i)\<lparr>status := AVAILABLE, lockedUntil := None\<rparr>
            else tbl_seats db ! i))
   \<and> fst (releaseExpiredLocks now db)
        = card {i. i < length (tbl_seats db) \<and> status (tbl_seats db ! i) = PENDING
                   \<and> (\<exists>t. lockedUntil (tbl_seats db ! i) = Some t \<and> t < now)}
   \<and> tbl_shows (snd (releaseExpiredLocks now db)) = tbl_shows db
   \<and> tbl_bookings (snd (releaseExpiredLocks now db)) = tbl_bookings db
   \<and> releaseExpiredLocks now (snd (releaseExpiredLocks now db))
        = (0, snd (releaseExpiredLocks now db))"
proof -
  have ex: "expired now s = (status s = PENDING \<and> (\<exists>t. lockedUntil s = Some t \<and> t < now))" for s
    by (simp add: expired_def split: option.splits)
  have cnt: "fst (releaseExpiredLocks now db)
        = card {i. i < length (tbl_seats db) \<and> expired now (tbl_seats db ! i)}"
    by (simp add: releaseExpiredLocks_def length_filter_conv_card)
  have again: "releaseExpiredLocks now (snd (releaseExpiredLocks now db))
        = (0, snd (releaseExpiredLocks now db))"
    by (auto simp: releaseExpiredLocks_def update_seats_def expired_def filter_empty_conv)
  have rows: "\<forall>i < length (tbl_seats db).
         tbl_seats (snd (releaseExpiredLocks now db)) ! i =
           (if expired now (tbl_seats db ! i)
            then (tbl_seats db ! i)\<lparr>status := AVAILABLE, lockedUntil := None\<rparr>
            else tbl_seats db ! i)"
    by (simp add: releaseExpiredLocks_def update_seats_def)
  have rest: "length (tbl_seats (snd (releaseExpiredLocks now db))) = length (tbl_seats db)
      \<and> tbl_shows (snd (releaseExpiredLocks now db)) = tbl_shows db
      \<and> tbl_bookings (snd (releaseExpiredLocks now db)) = tbl_bookings db"
    by (simp add: releaseExpiredLocks_def update_seats_def)
  from cnt again rows rest show ?thesis
    unfolding ex by blast
qed

theorem releaseExpiredLocks_sweep_witness:
  "(1::nat) < length (tbl_seats db0)
   \<and> releaseExpiredLocks 100 db0
       = (1, db0\<lparr>tbl_seats := (tbl_seats db0)
                  [1 := (tbl_seats db0 ! 1)\<lparr>status := AVAILABLE, lockedUntil := None\<rparr>]\<rparr>)
   \<and> tbl_seats (snd (releaseExpiredLocks 100 db0)) ! 1
       = (tbl_seats db0 ! 1)\<lparr>status := AVAILABLE, lockedUntil := None\<rparr>"
  using releaseExpiredLocks_sweep [of 100 db0]
  by (simp add: db0_def releaseExpiredLocks_def update_seats_def expired_def)

section \<open>Evaluation rules and facts about the example state\<close>

lemmas ab_eval = attemptBooking_def select_for_update_nowait_def tx_begin_def tx_exec_def
  tx_rollback_def tx_commit_def insert_booking_def update_seats_def update_shows_def Let_def

lemma db0_keys: "pk_seats db0" "fk_seats db0" "''b1'' \<notin> set (map booking_id (tbl_bookings db0))"
  by (simp_all add: pk_seats_def fk_seats_def db0_def)

section \<open>The seat invariant\<close>

lemma seat_inv_update_seats:
  assumes "seat_inv db"
    and "\<And>s. wh s \<Longrightarrow> (lockedUntil (st s) \<noteq> None) = (status (st s) = PENDING)"
  shows "seat_inv (update_seats wh st db)"
  using assms by (auto simp: seat_inv_def update_seats_def)

lemma seat_inv_update_shows: "seat_inv (update_shows wh st db) = seat_inv db"
  by (simp add: seat_inv_def update_shows_def)

lemma seat_inv_lockSeats: "seat_inv db \<Longrightarrow> seat_inv (snd (lockSeats rowLocks now ids until db))"
  by (auto simp: lockSeats_def tx_begin_def tx_exec_def tx_rollback_def tx_commit_def Let_def
        intro: seat_inv_update_seats split: option.splits)

lemma seat_inv_unlockSeats:
  "seat_inv db \<Longrightarrow> seat_inv (snd (unlockSeats array_in ids db))"
  by (simp add: unlockSeats_def seat_inv_update_seats split: option.splits)

lemma seat_inv_markSeatsAsBooked:
  "seat_inv db \<Longrightarrow> seat_inv (snd (markSeatsAsBooked array_in ids db))"
  by (simp add: markSeatsAsBooked_def seat_inv_update_seats split: option.splits)

lemma seat_inv_releaseExpiredLocks: "seat_inv db \<Longrightarrow> seat_inv (snd (releaseExpiredLocks now db))"
  by (simp add: releaseExpiredLocks_def seat_inv_update_seats)

lemma seat_inv_createSeats: "seat_inv db \<Longrightarrow> seat_inv (snd (createSeats uuid showId count db))"
  by (auto simp: createSeats_def insert_seats_def seatValues_def seat_inv_def split: sum.splits if_splits)

lemma attemptBooking_cases:
  "attemptBooking rowLocks now newId showId ids uid db = (r, db') \<Longrightarrow>
     (\<exists>e. r = Inl e \<and> db' = db)
   \<or> (\<exists>b. r = Inr b \<and>
        db' = (update_shows (\<lambda>s. show_id s = showId)
                 (\<lambda>s. s\<lparr>availableSeats := availableSeats s - int (length ids)\<rparr>)
                 (update_seats (\<lambda>s. seat_id s \<in> set ids)
                    (\<lambda>s. s\<lparr>status := BOOKED, lockedUntil := None\<rparr>) db))
               \<lparr>tbl_bookings := tbl_bookings db @ [b]\<rparr>)"
  by (auto simp: attemptBooking_def tx_begin_def tx_exec_def tx_rollback_def tx_commit_def Let_def
        insert_booking_def update_shows_def update_seats_def
        split: option.splits if_splits sum.splits)

lemma seat_inv_bookings_upd: "seat_inv (db\<lparr>tbl_bookings := bs\<rparr>) = seat_inv db"
  by (simp add: seat_inv_def)

lemma seat_inv_attemptBooking:
  assumes "seat_inv db"
  shows "seat_inv (snd (attemptBooking rowLocks now newId showId ids uid db))"
proof -
  obtain r db' where eq: "attemptBooking rowLocks now newId showId ids uid db = (r, db')"
    by (cases "attemptBooking rowLocks now newId showId ids uid db")
  have "seat_inv db'"
    using attemptBooking_cases [OF eq] assms
    by (auto simp: seat_inv_bookings_upd seat_inv_update_shows seat_inv_update_seats)
  then show ?thesis by (simp add: eq)
qed

text \<open>
  C6. Each of \<open>lockSeats\<close>, \<open>unlockSeats\<close>, \<open>markSeatsAsBooked\<close>,
  \<open>releaseExpiredLocks\<close>, \<open>attemptBooking\<close> and \<open>createSeats\<close> keeps the seat
  invariant: in the state it leaves, the lock expiry of every seat is set if and only if
  the seat is \<open>PENDING\<close>, whatever the arguments, whether the operation succeeds or
  fails, and whichever array the database reads from the parameter of \<open>unlockSeats\<close>
  and \<open>markSeatsAsBooked\<close>.
\<close>

theorem seat_inv_preserved:
  assumes "seat_inv db"
  shows "seat_inv (snd (lockSeats rowLocks now ids until db))
       \<and> seat_inv (snd (unlockSeats array_in idsU db))
       \<and> seat_inv (snd (markSeatsAsBooked array_in idsM db))
       \<and> seat_inv (snd (releaseExpiredLocks now db))
       \<and> seat_inv (snd (attemptBooking rowLocks now newId showId ids uid db))
       \<and> seat_inv (snd (createSeats uuid showId count db))"
  using assms
  by (simp add: seat_inv_lockSeats seat_inv_unlockSeats seat_inv_markSeatsAsBooked
        seat_inv_releaseExpiredLocks seat_inv_attemptBooking seat_inv_createSeats)

theorem seat_inv_preserved_witness:
  "seat_inv db0
   \<and> fst (lockSeats [] 100 [''s1'', ''s2''] 200 db0)
   \<and> seat_inv (snd (lockSeats [] 100 [''s1'', ''s2''] 200 db0))
   \<and> fst (unlockSeats array_in0 [''{s1,s2}''] db0) = Inr ()
   \<and> seat_inv (snd (unlockSeats array_in0 [''{s1,s2}''] db0))
   \<and> fst (markSeatsAsBooked array_in0 [''s1'', ''s2''] db0) = Inl DB_ERROR
   \<and> seat_inv (snd (markSeatsAsBooked array_in0 [''s1'', ''s2''] db0))
   \<and> seat_inv (snd (releaseExpiredLocks 100 db0))
   \<and> seat_inv (snd (attemptBooking [] 100 ''b1'' ''sh'' [''s1'', ''s2''] None db0))
   \<and> seat_inv (snd (createSeats (\<lambda>i. ''n'' @ replicate i CHR ''x'') ''sh'' 2 db0))"
proof -
  have inv0: "seat_inv db0"
    by (simp add: seat_inv_def db0_def)
  have locked: "fst (lockSeats [] 100 [''s1'', ''s2''] 200 db0)"
    by (simp add: lockSeats_def select_for_update_nowait_def tx_begin_def tx_exec_def
          tx_commit_def tx_rollback_def acquirable_def expired_def db0_def Let_def)
  have released: "fst (unlockSeats array_in0 [''{s1,s2}''] db0) = Inr ()"
    by (simp add: unlockSeats_def any_parameter_def array_in0_def)
  have rejected: "fst (markSeatsAsBooked array_in0 [''s1'', ''s2''] db0) = Inl DB_ERROR"
    by (simp add: markSeatsAsBooked_def any_parameter_def)
  note inst = seat_inv_preserved [OF inv0, where rowLocks = "[]" and now = 100
      and ids = "[''s1'', ''s2'']" and until = 200 and array_in = array_in0
      and idsU = "[''{s1,s2}'']" and idsM = "[''s1'', ''s2'']" and newId = "''b1''"
      and showId = "''sh''" and uid = None
      and uuid = "\<lambda>i. ''n'' @ replicate i CHR ''x''" and count = 2]
  from inv0 locked released rejected inst show ?thesis
    by blast
qed

section \<open>Rollback of a failed booking\<close>

text \<open>
  C2. Whenever \<open>attemptBooking\<close> ends in an error, the state it leaves is the state
  it was called in: seats, shows and bookings are all as before. This covers
  \<open>SEATS_LOCKED\<close>, \<open>INVALID_SEATS\<close> and \<open>SEATS_UNAVAILABLE\<close>, and also an error
  raised by a statement after the seats and the counter were already rewritten.
\<close>

theorem attemptBooking_error_rollback:
  "fst (attemptBooking rowLocks now newId showId ids uid db) = Inl e \<Longrightarrow>
   snd (attemptBooking rowLocks now newId showId ids uid db) = db"
  by (cases "attemptBooking rowLocks now newId showId ids uid db")
     (auto dest: attemptBooking_cases)

theorem attemptBooking_error_rollback_witness:
  "fst (attemptBooking [] 100 ''b1'' ''sh'' [''s1'', ''s3''] None db0) = Inl SEATS_UNAVAILABLE
   \<and> snd (attemptBooking [] 100 ''b1'' ''sh'' [''s1'', ''s3''] None db0) = db0"
proof -
  have e: "fst (attemptBooking [] 100 ''b1'' ''sh'' [''s1'', ''s3''] None db0) = Inl SEATS_UNAVAILABLE"
    by (simp add: ab_eval db0_def)
  from e attemptBooking_error_rollback [OF e] show ?thesis by simp
qed

section \<open>Rows selected under a primary key\<close>

lemma pk_selected:
  assumes pk: "distinct (map seat_id xs)"
    and len: "length (filter (\<lambda>s. seat_id s \<in> set ids \<and> P s) xs) = length ids"
  shows "distinct ids"
    and "\<And>s. s \<in> set xs \<Longrightarrow> seat_id s \<in> set ids \<Longrightarrow> P s"
    and "\<And>i. i \<in> set ids \<Longrightarrow> \<exists>s \<in> set xs. seat_id s = i"
proof -
  let ?sel = "filter (\<lambda>s. seat_id s \<in> set ids \<and> P s) xs"
  have d: "distinct (map seat_id ?sel)"
    using pk by (simp add: distinct_map_filter)
  have sub: "set (map seat_id ?sel) \<subseteq> set ids" by auto
  have cs: "card (set (map seat_id ?sel)) = length ids"
    using distinct_card [OF d] len by simp
  have "card (set (map seat_id ?sel)) \<le> card (set ids)"
    using sub by (simp add: card_mono)
  with cs have c: "card (set ids) = length ids"
    using card_length [of ids] by simp
  then show dist: "distinct ids" by (simp add: card_distinct)
  from sub cs c have eq: "set (map seat_id ?sel) = set ids"
    by (simp add: card_subset_eq)
  have inj: "inj_on seat_id (set xs)"
    using pk by (simp add: distinct_map)
  show "P s" if "s \<in> set xs" "seat_id s \<in> set ids" for s
  proof -
    from that(2) eq have "seat_id s \<in> seat_id ` set ?sel" by simp
    then obtain r where r: "r \<in> set ?sel" "seat_id r = seat_id s" by force
    then have "r \<in> set xs" by simp
    with inj that(1) r(2) have "r = s"
      by (simp add: inj_on_def)
    with r(1) show ?thesis by simp
  qed
  show "\<exists>s \<in> set xs. seat_id s = i" if "i \<in> set ids" for i
  proof -
    from that eq have "i \<in> seat_id ` set ?sel" by simp
    then show ?thesis by force
  qed
qed

lemma pk_all_selected:
  assumes pk: "distinct (map seat_id xs)" and d: "distinct ids"
    and ex: "\<And>i. i \<in> set ids \<Longrightarrow> \<exists>s \<in> set xs. seat_id s = i \<and> P s"
  shows "length (filter (\<lambda>s. seat_id s \<in> set ids \<and> P s) xs) = length ids"
proof -
  let ?sel = "filter (\<lambda>s. seat_id s \<in> set ids \<and> P s) xs"
  have ds: "distinct (map seat_id ?sel)"
    using pk by (simp add: distinct_map_filter)
  have "set (map seat_id ?sel) = set ids"
    using ex by force
  then have "card (set (map seat_id ?sel)) = card (set ids)" by simp
  with distinct_card [OF ds] distinct_card [OF d] show ?thesis by simp
qed

section \<open>The outcomes of the atomic booking\<close>

lemma not_acquirable_iff:
  "(status seat \<noteq> AVAILABLE
     \<and> \<not> (status seat = PENDING \<and> (case lockedUntil seat of None \<Rightarrow> False | Some t \<Rightarrow> t < now)))
   = (\<not> acquirable now seat)"
  by (simp add: acquirable_def expired_def)

lemma attemptBooking_unfold:
  "attemptBooking rowLocks now newId showId ids uid db =
     (let sel = filter (\<lambda>s. seat_id s \<in> set ids \<and> seat_showId s = showId) (tbl_seats db)
      in if \<exists>r \<in> set sel. seat_id r \<in> set rowLocks then (Inl SEATS_LOCKED, db)
         else if length sel \<noteq> length ids then (Inl INVALID_SEATS, db)
         else if \<exists>r \<in> set sel. \<not> acquirable now r then (Inl SEATS_UNAVAILABLE, db)
         else if newId \<in> set (map booking_id (tbl_bookings db))
                 \<or> showId \<notin> set (map show_id (tbl_shows db)) then (Inl DB_ERROR, db)
         else (Inr (confirmed_row now newId showId ids uid),
               \<lparr>tbl_shows = map (\<lambda>sh. if show_id sh = showId
                                      then sh\<lparr>availableSeats := availableSeats sh - int (length ids)\<rparr>
                                      else sh) (tbl_shows db),
                tbl_seats = map (\<lambda>s. if seat_id s \<in> set ids
                                     then s\<lparr>status := BOOKED, lockedUntil := None\<rparr> else s)
                                (tbl_seats db),
                tbl_bookings = tbl_bookings db @ [confirmed_row now newId showId ids uid]\<rparr>))"
proof -
  let ?sel = "filter (\<lambda>s. seat_id s \<in> set ids \<and> seat_showId s = showId) (tbl_seats db)"
  have sel: "select_for_update_nowait rowLocks
               (\<lambda>s. seat_id s \<in> set ids \<and> seat_showId s = showId) (current (tx_begin db))
             = (if \<exists>r \<in> set ?sel. seat_id r \<in> set rowLocks then None else Some ?sel)"
    by (simp add: select_for_update_nowait_def tx_begin_def Let_def)
  let ?un = "filter (\<lambda>seat. status seat \<noteq> AVAILABLE
                \<and> \<not> (status seat = PENDING
                     \<and> (case lockedUntil seat of None \<Rightarrow> False | Some t \<Rightarrow> t < now))) ?sel"
  have un: "(0 < length ?un) = (\<exists>r \<in> set ?sel. \<not> acquirable now r)"
    unfolding not_acquirable_iff by (auto simp: filter_empty_conv)
  have ids_kept: "(\<lambda>x. show_id (if show_id x = showId
                       then x\<lparr>availableSeats := availableSeats x - int (length ids)\<rparr>
                       else x)) ` set (tbl_shows db) = show_id ` set (tbl_shows db)"
    by (rule image_cong) auto
  note tx = tx_begin_def tx_exec_def tx_rollback_def tx_commit_def ids_kept
  show ?thesis
  proof (cases "\<exists>r \<in> set ?sel. seat_id r \<in> set rowLocks")
    case True
    then show ?thesis
      unfolding attemptBooking_def sel Let_def by (simp add: tx)
  next
    case nolock: False
    show ?thesis
    proof (cases "length ?sel = length ids")
      case False
      with nolock show ?thesis
        unfolding attemptBooking_def sel Let_def by (simp add: tx)
    next
      case len: True
      show ?thesis
      proof (cases "\<exists>r \<in> set ?sel. \<not> acquirable now r")
        case True
        then have "0 < length ?un" using un by blast
        with nolock len True show ?thesis
          unfolding attemptBooking_def sel Let_def by (simp add: tx)
      next
        case av: False
        then have avail: "\<not> 0 < length ?un" using un by blast
        note avail = avail av
        show ?thesis
        proof (cases "newId \<in> set (map booking_id (tbl_bookings db))
                 \<or> showId \<notin> set (map show_id (tbl_shows db))")
          case True
          with nolock len avail show ?thesis
            unfolding attemptBooking_def sel Let_def
            by (simp add: tx insert_booking_def update_seats_def update_shows_def)
        next
          case False
          with nolock len avail show ?thesis
            unfolding attemptBooking_def sel Let_def
            by (simp add: tx insert_booking_def update_seats_def update_shows_def
                  confirmed_row_def)
        qed
      qed
    qed
  qed
qed




text \<open>
  Outside that precondition, a call with no seats for a show that does not exist: the lock
  query selects no row, so the row count equals the length of the empty request and no
  selected seat is unavailable; both updates rewrite nothing; the insert of the booking
  row then violates the foreign key to shows, and the outer \<open>catch\<close> rolls back and
  rethrows that error. The booking route never makes this call: it rejects an empty seat
  list and an unknown show before it calls \<open>attemptBooking\<close>.
\<close>

lemma attemptBooking_empty_request:
  "attemptBooking [] 100 ''b1'' ''sh'' [] None empty_db = (Inl DB_ERROR, empty_db)"
  by (simp add: ab_eval empty_db_def)

section \<open>Duplicated seat identifiers\<close>




section \<open>Holds that ran out\<close>

lemma lockSeats_unfold:
  "lockSeats rowLocks now ids until db =
     (let sel = filter (\<lambda>s. seat_id s \<in> set ids \<and> acquirable now s) (tbl_seats db)
      in if \<exists>r \<in> set sel. seat_id r \<in> set rowLocks then (False, db)
         else if length sel \<noteq> length ids then (False, db)
         else (True, db\<lparr>tbl_seats := map (\<lambda>s. if seat_id s \<in> set ids
                                                then s\<lparr>status := PENDING, lockedUntil := Some until\<rparr>
                                                else s) (tbl_seats db)\<rparr>))"
  by (auto simp: lockSeats_def select_for_update_nowait_def tx_begin_def tx_exec_def
        tx_rollback_def tx_commit_def update_seats_def Let_def)

text \<open>
  C5. A request for distinct seats of one show, each of them \<open>AVAILABLE\<close> or
  \<open>PENDING\<close> with a lock expiry before \<open>now\<close>, none of them locked by another
  transaction, succeeds: \<open>attemptBooking\<close> returns a confirmed booking, and in the state
  it leaves every requested seat is there and is \<open>BOOKED\<close>; \<open>lockSeats\<close> returns true,
  and in the state it leaves every requested seat is there and is \<open>PENDING\<close> with the
  new expiry. No reaper sweep is needed in between.
\<close>

theorem expired_hold_is_acquirable:
  assumes pk: "pk_seats db" and fk: "fk_seats db"
    and fresh: "newId \<notin> set (map booking_id (tbl_bookings db))"
    and ne: "ids \<noteq> []" and d: "distinct ids"
    and free: "\<forall>i \<in> set ids. \<exists>s \<in> set (tbl_seats db).
                 seat_id s = i \<and> seat_showId s = showId
                 \<and> (status s = AVAILABLE
                      \<or> (status s = PENDING \<and> (\<exists>t. lockedUntil s = Some t \<and> t < now)))"
    and nolock: "\<forall>i \<in> set ids. i \<notin> set rowLocks"
  shows "(\<exists>b db'. attemptBooking rowLocks now newId showId ids uid db = (Inr b, db')
            \<and> booking_status b = CONFIRMED \<and> seatIds b = ids
            \<and> (\<forall>i \<in> set ids. \<exists>s \<in> set (tbl_seats db'). seat_id s = i \<and> status s = BOOKED)
            \<and> (\<forall>s \<in> set (tbl_seats db'). seat_id s \<in> set ids \<longrightarrow> status s = BOOKED))
       \<and> (\<exists>db'. lockSeats rowLocks now ids until db = (True, db')
            \<and> (\<forall>i \<in> set ids. \<exists>s \<in> set (tbl_seats db').
                  seat_id s = i \<and> status s = PENDING \<and> lockedUntil s = Some until)
            \<and> (\<forall>s \<in> set (tbl_seats db').
                  seat_id s \<in> set ids \<longrightarrow> status s = PENDING \<and> lockedUntil s = Some until))"
proof -
  have pk': "distinct (map seat_id (tbl_seats db))"
    using pk by (simp add: pk_seats_def)
  have acq: "acquirable now s = (status s = AVAILABLE
                      \<or> (status s = PENDING \<and> (\<exists>t. lockedUntil s = Some t \<and> t < now)))" for s
    by (simp add: acquirable_def expired_def split: option.splits)
  have inj: "inj_on seat_id (set (tbl_seats db))"
    using pk' by (simp add: distinct_map)
  have uniq: "seat_showId s = showId \<and> acquirable now s"
    if "s \<in> set (tbl_seats db)" "seat_id s \<in> set ids" for s
  proof -
    from free that(2) obtain r where r: "r \<in> set (tbl_seats db)" "seat_id r = seat_id s"
      "seat_showId r = showId" "acquirable now r"
      unfolding acq by blast
    with inj that(1) have "r = s" by (simp add: inj_on_def)
    with r show ?thesis by simp
  qed
  let ?selA = "filter (\<lambda>s. seat_id s \<in> set ids \<and> seat_showId s = showId) (tbl_seats db)"
  let ?selL = "filter (\<lambda>s. seat_id s \<in> set ids \<and> acquirable now s) (tbl_seats db)"
  have lenA: "length ?selA = length ids"
    using free by (intro pk_all_selected [OF pk' d]) blast
  have lenL: "length ?selL = length ids"
    using free unfolding acq [symmetric] by (intro pk_all_selected [OF pk' d]) blast
  have nlA: "\<not> (\<exists>r \<in> set ?selA. seat_id r \<in> set rowLocks)"
    using nolock by auto
  have nlL: "\<not> (\<exists>r \<in> set ?selL. seat_id r \<in> set rowLocks)"
    using nolock by auto
  have avA: "\<not> (\<exists>r \<in> set ?selA. \<not> acquirable now r)"
    using uniq by auto
  from ne obtain i where "i \<in> set ids" by (cases ids) auto
  with free obtain s where "s \<in> set (tbl_seats db)" "seat_showId s = showId" by blast
  with fk have sh: "showId \<in> set (map show_id (tbl_shows db))"
    by (auto simp: fk_seats_def)
  let ?b = "confirmed_row now newId showId ids uid"
  let ?gA = "\<lambda>s. if seat_id s \<in> set ids then s\<lparr>status := BOOKED, lockedUntil := None\<rparr> else s"
  let ?gL = "\<lambda>s. if seat_id s \<in> set ids
                  then s\<lparr>status := PENDING, lockedUntil := Some until\<rparr> else s"
  let ?dbA = "\<lparr>tbl_shows = map (\<lambda>sh. if show_id sh = showId
                                      then sh\<lparr>availableSeats := availableSeats sh - int (length ids)\<rparr>
                                      else sh) (tbl_shows db),
                tbl_seats = map ?gA (tbl_seats db),
                tbl_bookings = tbl_bookings db @ [?b]\<rparr>"
  let ?dbL = "db\<lparr>tbl_seats := map ?gL (tbl_seats db)\<rparr>"
  from lenA nlA avA sh fresh
  have rA: "attemptBooking rowLocks now newId showId ids uid db = (Inr ?b, ?dbA)"
    unfolding attemptBooking_unfold Let_def by simp
  from lenL nlL
  have rL: "lockSeats rowLocks now ids until db = (True, ?dbL)"
    unfolding lockSeats_unfold Let_def by simp
  have bA: "booking_status ?b = CONFIRMED" "seatIds ?b = ids"
    by (simp_all add: confirmed_row_def)
  have exA: "\<forall>i \<in> set ids. \<exists>s \<in> set (tbl_seats ?dbA). seat_id s = i \<and> status s = BOOKED"
  proof
    fix i assume i: "i \<in> set ids"
    with free obtain s where s: "s \<in> set (tbl_seats db)" "seat_id s = i" by blast
    then have "?gA s \<in> set (tbl_seats ?dbA)" by simp
    moreover from s i have "seat_id (?gA s) = i \<and> status (?gA s) = BOOKED" by simp
    ultimately show "\<exists>s \<in> set (tbl_seats ?dbA). seat_id s = i \<and> status s = BOOKED"
      by blast
  qed
  have allA: "\<forall>s \<in> set (tbl_seats ?dbA). seat_id s \<in> set ids \<longrightarrow> status s = BOOKED"
    by auto
  have exL: "\<forall>i \<in> set ids. \<exists>s \<in> set (tbl_seats ?dbL).
                  seat_id s = i \<and> status s = PENDING \<and> lockedUntil s = Some until"
  proof
    fix i assume i: "i \<in> set ids"
    with free obtain s where s: "s \<in> set (tbl_seats db)" "seat_id s = i" by blast
    then have "?gL s \<in> set (tbl_seats ?dbL)" by simp
    moreover from s i have "seat_id (?gL s) = i \<and> status (?gL s) = PENDING
        \<and> lockedUntil (?gL s) = Some until" by simp
    ultimately show "\<exists>s \<in> set (tbl_seats ?dbL).
                  seat_id s = i \<and> status s = PENDING \<and> lockedUntil s = Some until"
      by blast
  qed
  have allL: "\<forall>s \<in> set (tbl_seats ?dbL).
                  seat_id s \<in> set ids \<longrightarrow> status s = PENDING \<and> lockedUntil s = Some until"
    by auto
  show ?thesis
    by (intro conjI exI [of _ ?b] exI [of _ ?dbA] exI [of _ ?dbL])
       (rule rA bA exA allA rL exL allL)+
qed

theorem expired_hold_is_acquirable_witness:
  "pk_seats db0 \<and> fk_seats db0 \<and> ''b1'' \<notin> set (map booking_id (tbl_bookings db0))
   \<and> [''s2''] \<noteq> [] \<and> distinct [''s2'']
   \<and> (\<exists>s \<in> set (tbl_seats db0).
          seat_id s = ''s2'' \<and> seat_showId s = ''sh'' \<and> status s = PENDING
          \<and> (\<exists>t. lockedUntil s = Some t \<and> t < 100))
   \<and> ''s2'' \<notin> set []
   \<and> (\<exists>b db'. attemptBooking [] 100 ''b1'' ''sh'' [''s2''] None db0 = (Inr b, db')
            \<and> booking_status b = CONFIRMED \<and> seatIds b = [''s2'']
            \<and> (\<forall>i \<in> set [''s2'']. \<exists>s \<in> set (tbl_seats db'). seat_id s = i \<and> status s = BOOKED)
            \<and> (\<forall>s \<in> set (tbl_seats db'). seat_id s \<in> set [''s2''] \<longrightarrow> status s = BOOKED))
   \<and> (\<exists>db'. lockSeats [] 100 [''s2''] 200 db0 = (True, db')
            \<and> (\<forall>i \<in> set [''s2'']. \<exists>s \<in> set (tbl_seats db').
                  seat_id s = i \<and> status s = PENDING \<and> lockedUntil s = Some 200)
            \<and> (\<forall>s \<in> set (tbl_seats db').
                  seat_id s \<in> set [''s2''] \<longrightarrow> status s = PENDING \<and> lockedUntil s = Some 200))
   \<and> map status (tbl_seats (snd (attemptBooking [] 100 ''b1'' ''sh'' [''s2''] None db0)))
       = [AVAILABLE, BOOKED, BOOKED]
   \<and> map lockedUntil (tbl_seats (snd (lockSeats [] 100 [''s2''] 200 db0)))
       = [None, Some 200, None]"
proof -
  have h: "[''s2''] \<noteq> []" "distinct [''s2'']" "''s2'' \<notin> set []"
    by simp_all
  have held: "\<exists>s \<in> set (tbl_seats db0).
          seat_id s = ''s2'' \<and> seat_showId s = ''sh'' \<and> status s = PENDING
          \<and> (\<exists>t. lockedUntil s = Some t \<and> t < 100)"
    by (simp add: db0_def)
  then have f: "\<forall>i \<in> set [''s2'']. \<exists>s \<in> set (tbl_seats db0).
          seat_id s = i \<and> seat_showId s = ''sh''
          \<and> (status s = AVAILABLE
               \<or> (status s = PENDING \<and> (\<exists>t. lockedUntil s = Some t \<and> t < 100)))"
    by auto
  have n: "\<forall>i \<in> set [''s2'']. i \<notin> set []"
    by simp
  have evA: "map status (tbl_seats (snd (attemptBooking [] 100 ''b1'' ''sh'' [''s2''] None db0)))
       = [AVAILABLE, BOOKED, BOOKED]"
    by (simp add: ab_eval db0_def)
  have evL: "map lockedUntil (tbl_seats (snd (lockSeats [] 100 [''s2''] 200 db0)))
       = [None, Some 200, None]"
    by (simp add: lockSeats_def select_for_update_nowait_def tx_begin_def tx_exec_def
          tx_commit_def tx_rollback_def update_seats_def acquirable_def expired_def
          db0_def Let_def)
  note inst = expired_hold_is_acquirable [OF db0_keys h(1,2) f n, of None 200]
  show ?thesis
    by (intro conjI)
       (rule db0_keys h held evA evL inst [THEN conjunct1] inst [THEN conjunct2])+
qed

section \<open>Reaper sweep 2\<close>















section \<open>The counter invariant\<close>

lemma consistent_same_tables:
  assumes "tbl_seats db' = tbl_seats db" and "tbl_shows db' = tbl_shows db"
  shows "consistent db' = consistent db"
  using assms
  by (simp add: consistent_def pk_seats_def fk_seats_def counter_inv_def booked_count_def)

lemma fk_seats_alt:
  "fk_seats db = (set (map seat_showId (tbl_seats db)) \<subseteq> set (map show_id (tbl_shows db)))"
  by (auto simp: fk_seats_def)

lemma consistent_update_seats:
  assumes ok: "consistent db"
    and keep: "\<And>s. s \<in> set (tbl_seats db) \<Longrightarrow> wh s \<Longrightarrow>
                 seat_id (st s) = seat_id s \<and> seat_showId (st s) = seat_showId s
                 \<and> (status (st s) = BOOKED) = (status s = BOOKED)"
  shows "consistent (update_seats wh st db)"
proof -
  let ?g = "\<lambda>s. if wh s then st s else s"
  let ?db' = "update_seats wh st db"
  have seats': "tbl_seats ?db' = map ?g (tbl_seats db)"
    and shows': "tbl_shows ?db' = tbl_shows db"
    by (simp_all add: update_seats_def)
  have g: "seat_id (?g s) = seat_id s \<and> seat_showId (?g s) = seat_showId s
           \<and> (status (?g s) = BOOKED) = (status s = BOOKED)" if "s \<in> set (tbl_seats db)" for s
    using keep [OF that] by (cases "wh s") simp_all
  have ids: "map seat_id (map ?g (tbl_seats db)) = map seat_id (tbl_seats db)"
    unfolding map_map by (rule map_cong [OF refl]) (simp add: g)
  have shs: "map seat_showId (map ?g (tbl_seats db)) = map seat_showId (tbl_seats db)"
    unfolding map_map by (rule map_cong [OF refl]) (simp add: g)
  have cnt: "length (filter (\<lambda>s. seat_showId s = x \<and> status s = BOOKED) (map ?g (tbl_seats db)))
           = length (filter (\<lambda>s. seat_showId s = x \<and> status s = BOOKED) (tbl_seats db))" for x
  proof -
    have "filter ((\<lambda>s. seat_showId s = x \<and> status s = BOOKED) \<circ> ?g) (tbl_seats db)
          = filter (\<lambda>s. seat_showId s = x \<and> status s = BOOKED) (tbl_seats db)"
      by (rule filter_cong [OF refl]) (simp add: g)
    then show ?thesis by (simp only: filter_map length_map)
  qed
  from ok have pk0: "pk_seats db" and fk0: "fk_seats db" and ci0: "counter_inv db"
    by (simp_all add: consistent_def)
  have pk: "pk_seats ?db'"
    using pk0 unfolding pk_seats_def seats' ids .
  have fk: "fk_seats ?db'"
    using fk0 unfolding fk_seats_alt seats' shows' shs .
  have ci: "counter_inv ?db'"
    using ci0 unfolding counter_inv_def booked_count_def seats' shows' cnt .
  from pk fk ci show ?thesis by (simp add: consistent_def)
qed

lemma consistent_unlockSeats:
  assumes "consistent db"
  shows "consistent (snd (unlockSeats array_in ids db))"
proof (cases "any_parameter array_in ids")
  case None
  with assms show ?thesis by (simp add: unlockSeats_def)
next
  case (Some arr)
  have "consistent (update_seats (\<lambda>s. seat_id s \<in> set arr \<and> status s = PENDING)
                      (\<lambda>s. s\<lparr>status := AVAILABLE, lockedUntil := None\<rparr>) db)"
    by (rule consistent_update_seats [OF assms]) auto
  with Some show ?thesis by (simp add: unlockSeats_def)
qed

lemma consistent_releaseExpiredLocks:
  "consistent db \<Longrightarrow> consistent (snd (releaseExpiredLocks now db))"
  unfolding releaseExpiredLocks_def snd_conv
  by (rule consistent_update_seats) (auto simp: expired_def)

lemma consistent_updateBookingStatus:
  "consistent (snd (updateBookingStatus bid st db)) = consistent db"
  by (rule consistent_same_tables)
     (simp_all add: updateBookingStatus_def Let_def update_bookings_def)

lemma consistent_failBooking:
  assumes "consistent db"
  shows "consistent (snd (failBooking array_in bid db))"
proof (cases "getBookingById bid db")
  case None
  with assms show ?thesis by (simp add: failBooking_def)
next
  case (Some b)
  obtain r db1 where u: "unlockSeats array_in (seatIds b) db = (r, db1)"
    by (cases "unlockSeats array_in (seatIds b) db")
  from consistent_unlockSeats [OF assms, of array_in "seatIds b"] u have c1: "consistent db1"
    by simp
  show ?thesis
  proof (cases r)
    case (Inl e)
    with Some u c1 show ?thesis by (simp add: failBooking_def)
  next
    case (Inr v)
    with Some u c1 show ?thesis
      by (simp add: failBooking_def consistent_updateBookingStatus)
  qed
qed

lemma consistent_foldl_failBooking:
  "consistent db \<Longrightarrow>
   consistent (foldl (\<lambda>d b. snd (failBooking array_in (booking_id b) d)) db bs)"
  by (induction bs arbitrary: db) (simp_all add: consistent_failBooking)

lemma consistent_reapExpiredBookings:
  "consistent db \<Longrightarrow> consistent (reapExpiredBookings array_in now db)"
  by (simp add: reapExpiredBookings_def consistent_foldl_failBooking)

lemma consistent_insert_booking:
  "insert_booking row db = Inr db' \<Longrightarrow> consistent db' = consistent db"
  by (rule consistent_same_tables) (auto simp: insert_booking_def split: if_splits)

lemma consistent_createBooking:
  assumes "consistent db"
  shows "consistent (snd (createBooking newId now ins db))"
proof -
  let ?row = "\<lparr>booking_id = newId, booking_showId = ib_showId ins, userId = ib_userId ins,
                 seatIds = ib_seatIds ins,
                 booking_status = (case ib_status ins of None \<Rightarrow> B_PENDING | Some st \<Rightarrow> st),
                 createdAt = now,
                 expiresAt = Some (now + 2 * 60 * 1000)\<rparr>"
  show ?thesis
  proof (cases "insert_booking ?row db")
    case (Inl e)
    with assms show ?thesis by (simp add: createBooking_def Let_def)
  next
    case (Inr db')
    with assms consistent_insert_booking [OF Inr] show ?thesis
      by (simp add: createBooking_def Let_def)
  qed
qed

lemma consistent_lockSeats:
  assumes ok: "consistent db"
  shows "consistent (snd (lockSeats rowLocks now ids until db))"
proof -
  let ?sel = "filter (\<lambda>s. seat_id s \<in> set ids \<and> acquirable now s) (tbl_seats db)"
  show ?thesis
  proof (cases "(\<exists>r \<in> set ?sel. seat_id r \<in> set rowLocks) \<or> length ?sel \<noteq> length ids")
    case True
    then have "snd (lockSeats rowLocks now ids until db) = db"
      unfolding lockSeats_unfold Let_def by auto
    with ok show ?thesis by simp
  next
    case False
    then have len: "length ?sel = length ids" by simp
    from ok have pk: "distinct (map seat_id (tbl_seats db))"
      by (simp add: consistent_def pk_seats_def)
    have free: "status s \<noteq> BOOKED" if "s \<in> set (tbl_seats db)" "seat_id s \<in> set ids" for s
      using pk_selected(2) [OF pk len that] by (auto simp: acquirable_def expired_def)
    have "snd (lockSeats rowLocks now ids until db)
          = update_seats (\<lambda>s. seat_id s \<in> set ids)
              (\<lambda>s. s\<lparr>status := PENDING, lockedUntil := Some until\<rparr>) db"
      using False unfolding lockSeats_unfold Let_def by (simp add: update_seats_def)
    moreover have "consistent (update_seats (\<lambda>s. seat_id s \<in> set ids)
              (\<lambda>s. s\<lparr>status := PENDING, lockedUntil := Some until\<rparr>) db)"
      by (rule consistent_update_seats [OF ok]) (simp add: free)
    ultimately show ?thesis by simp
  qed
qed

lemma length_filter_disj:
  assumes "\<And>x. x \<in> set xs \<Longrightarrow> \<not> (P x \<and> Q x)"
  shows "length (filter (\<lambda>x. P x \<or> Q x) xs) = length (filter P xs) + length (filter Q xs)"
  using assms by (induction xs) auto

lemma consistent_attemptBooking:
  assumes ok: "consistent db"
  shows "consistent (snd (attemptBooking rowLocks now newId showId ids uid db))"
proof -
  let ?sel = "filter (\<lambda>s. seat_id s \<in> set ids \<and> seat_showId s = showId) (tbl_seats db)"
  let ?g = "\<lambda>s. if seat_id s \<in> set ids then s\<lparr>status := BOOKED, lockedUntil := None\<rparr> else s"
  let ?h = "\<lambda>sh. if show_id sh = showId
                  then sh\<lparr>availableSeats := availableSeats sh - int (length ids)\<rparr> else sh"
  let ?db' = "\<lparr>tbl_shows = map ?h (tbl_shows db), tbl_seats = map ?g (tbl_seats db),
               tbl_bookings = tbl_bookings db @ [confirmed_row now newId showId ids uid]\<rparr>"
  from ok have pk0: "pk_seats db" and fk0: "fk_seats db" and ci0: "counter_inv db"
    by (simp_all add: consistent_def)
  show ?thesis
  proof (cases "snd (attemptBooking rowLocks now newId showId ids uid db) = db")
    case True
    with ok show ?thesis by simp
  next
    case False
    then have res: "snd (attemptBooking rowLocks now newId showId ids uid db) = ?db'"
      and len: "length ?sel = length ids"
      and av: "\<not> (\<exists>r \<in> set ?sel. \<not> acquirable now r)"
      unfolding attemptBooking_unfold Let_def by (auto split: if_splits)
    from pk0 have pk: "distinct (map seat_id (tbl_seats db))"
      by (simp add: pk_seats_def)
    have mine: "seat_showId s = showId \<and> status s \<noteq> BOOKED"
      if "s \<in> set (tbl_seats db)" "seat_id s \<in> set ids" for s
    proof -
      from pk_selected(2) [OF pk len that] have sh: "seat_showId s = showId" .
      with that av have "acquirable now s" by auto
      with sh show ?thesis by (auto simp: acquirable_def expired_def)
    qed
    have ids': "map seat_id (map ?g (tbl_seats db)) = map seat_id (tbl_seats db)"
      unfolding map_map by (rule map_cong [OF refl]) simp
    have shs': "map seat_showId (map ?g (tbl_seats db)) = map seat_showId (tbl_seats db)"
      unfolding map_map by (rule map_cong [OF refl]) simp
    have sids': "map show_id (map ?h (tbl_shows db)) = map show_id (tbl_shows db)"
      unfolding map_map by (rule map_cong [OF refl]) simp
    have pk': "pk_seats ?db'"
      using pk0 unfolding pk_seats_def by (simp only: database.simps ids')
    have fk': "fk_seats ?db'"
      using fk0 unfolding fk_seats_alt by (simp only: database.simps shs' sids')
    have cnt: "booked_count x ?db' = (if x = showId then booked_count x db + length ids
                                      else booked_count x db)" for x
    proof -
      have "booked_count x ?db'
            = length (filter ((\<lambda>s. seat_showId s = x \<and> status s = BOOKED) \<circ> ?g) (tbl_seats db))"
        by (simp add: booked_count_def filter_map)
      also have "filter ((\<lambda>s. seat_showId s = x \<and> status s = BOOKED) \<circ> ?g) (tbl_seats db)
            = filter (\<lambda>s. (seat_showId s = x \<and> status s = BOOKED)
                          \<or> (seat_id s \<in> set ids \<and> seat_showId s = x)) (tbl_seats db)"
        by (rule filter_cong [OF refl]) (auto simp: mine)
      also have "length \<dots> = length (filter (\<lambda>s. seat_showId s = x \<and> status s = BOOKED) (tbl_seats db))
                             + length (filter (\<lambda>s. seat_id s \<in> set ids \<and> seat_showId s = x) (tbl_seats db))"
        by (rule length_filter_disj) (auto simp: mine)
      also have "length (filter (\<lambda>s. seat_id s \<in> set ids \<and> seat_showId s = x) (tbl_seats db))
                 = (if x = showId then length ids else 0)"
      proof (cases "x = showId")
        case True
        with len show ?thesis by simp
      next
        case False
        then have "filter (\<lambda>s. seat_id s \<in> set ids \<and> seat_showId s = x) (tbl_seats db) = []"
          by (auto simp: filter_empty_conv mine)
        with False show ?thesis by simp
      qed
      finally show ?thesis by (simp add: booked_count_def)
    qed
    have ci': "counter_inv ?db'"
      unfolding counter_inv_def
    proof
      fix sh assume "sh \<in> set (tbl_shows ?db')"
      then obtain sh0 where sh0: "sh0 \<in> set (tbl_shows db)" "sh = ?h sh0" by auto
      from ci0 sh0(1) have "availableSeats sh0 = totalSeats sh0 - int (booked_count (show_id sh0) db)"
        by (simp add: counter_inv_def)
      with sh0(2) show "availableSeats sh = totalSeats sh - int (booked_count (show_id sh) ?db')"
        by (simp add: cnt)
    qed
    from pk' fk' ci' show ?thesis by (simp only: res consistent_def simp_thms)
  qed
qed

lemma consistent_insert_show:
  assumes ok: "consistent db" and ins: "insert_show row db = Inr db'"
    and full: "availableSeats row = totalSeats row"
  shows "consistent db'"
proof -
  from ins have new: "show_id row \<notin> set (map show_id (tbl_shows db))"
    and db': "db' = db\<lparr>tbl_shows := tbl_shows db @ [row]\<rparr>"
    by (auto simp: insert_show_def split: if_splits)
  from ok have pk0: "pk_seats db" and fk0: "fk_seats db" and ci0: "counter_inv db"
    by (simp_all add: consistent_def)
  have none: "booked_count (show_id row) db = 0"
  proof -
    have "\<forall>s \<in> set (tbl_seats db). seat_showId s \<noteq> show_id row"
      using fk0 new unfolding fk_seats_def by metis
    then show ?thesis by (simp add: booked_count_def filter_empty_conv)
  qed
  have pk: "pk_seats db'" using pk0 by (simp add: pk_seats_def db')
  have fk: "fk_seats db'" using fk0 by (auto simp: fk_seats_def db')
  have cnt: "booked_count x db' = booked_count x db" for x
    by (simp add: booked_count_def db')
  have ci: "counter_inv db'"
    unfolding counter_inv_def
  proof
    fix sh assume "sh \<in> set (tbl_shows db')"
    then consider "sh = row" | "sh \<in> set (tbl_shows db)"
      by (auto simp: db')
    then show "availableSeats sh = totalSeats sh - int (booked_count (show_id sh) db')"
    proof cases
      case 1
      with none full show ?thesis by (simp add: cnt)
    next
      case 2
      with ci0 show ?thesis by (simp add: counter_inv_def cnt)
    qed
  qed
  from pk fk ci show ?thesis by (simp add: consistent_def)
qed

lemma consistent_insert_seats:
  assumes ok: "consistent db" and ins: "insert_seats rs db = Inr db'"
    and free: "\<forall>r \<in> set rs. status r \<noteq> BOOKED"
  shows "consistent db'"
proof -
  from ins have d: "distinct (map seat_id rs)"
    and new: "\<forall>r \<in> set rs. seat_id r \<notin> set (map seat_id (tbl_seats db))"
    and ref: "\<forall>r \<in> set rs. seat_showId r \<in> set (map show_id (tbl_shows db))"
    and db': "db' = db\<lparr>tbl_seats := tbl_seats db @ rs\<rparr>"
    by (auto simp: insert_seats_def split: if_splits)
  from ok have pk0: "pk_seats db" and fk0: "fk_seats db" and ci0: "counter_inv db"
    by (simp_all add: consistent_def)
  have "i \<notin> set (map seat_id (tbl_seats db))" if "i \<in> set (map seat_id rs)" for i
  proof -
    from that obtain r where "r \<in> set rs" "seat_id r = i" by auto
    with new show ?thesis by blast
  qed
  then have "set (map seat_id (tbl_seats db)) \<inter> set (map seat_id rs) = {}"
    by blast
  then have pk: "pk_seats db'"
    using pk0 d by (simp add: pk_seats_def db')
  have fk: "fk_seats db'"
    using fk0 ref by (auto simp: fk_seats_def db')
  have "filter (\<lambda>s. seat_showId s = x \<and> status s = BOOKED) rs = []" for x
    using free by (simp add: filter_empty_conv)
  then have cnt: "booked_count x db' = booked_count x db" for x
    by (simp add: booked_count_def db')
  have ci: "counter_inv db'"
    using ci0 by (simp add: counter_inv_def cnt) (simp add: db')
  from pk fk ci show ?thesis by (simp add: consistent_def)
qed

lemma consistent_createSeats:
  assumes "consistent db"
  shows "consistent (snd (createSeats uuid showId count db))"
proof (cases "insert_seats (seatValues uuid showId count) db")
  case (Inl e)
  with assms show ?thesis by (simp add: createSeats_def)
next
  case (Inr db')
  have "\<forall>r \<in> set (seatValues uuid showId count). status r \<noteq> BOOKED"
    by (simp add: seatValues_def)
  from consistent_insert_seats [OF assms Inr this] Inr assms show ?thesis
    by (simp add: createSeats_def)
qed

lemma createShow_unfold:
  "createShow newId uuid now ins db =
     (let row = \<lparr>show_id = newId, show_name = is_name ins, startTime = is_startTime ins,
                 totalSeats = is_totalSeats ins, availableSeats = is_totalSeats ins,
                 show_createdAt = now\<rparr>
      in case insert_show row db of
           Inl e \<Rightarrow> (Inl e, db)
         | Inr db1 \<Rightarrow>
             (case fst (createSeats uuid newId (is_totalSeats ins) db1) of
                Inl e \<Rightarrow> Inl e | Inr _ \<Rightarrow> Inr row,
              snd (createSeats uuid newId (is_totalSeats ins) db1)))"
  by (simp add: createShow_def Let_def split: sum.splits prod.splits)

lemma consistent_createShow:
  assumes "consistent db"
  shows "consistent (snd (createShow newId uuid now ins db))"
proof -
  let ?row = "\<lparr>show_id = newId, show_name = is_name ins, startTime = is_startTime ins,
                 totalSeats = is_totalSeats ins, availableSeats = is_totalSeats ins,
                 show_createdAt = now\<rparr>"
  show ?thesis
  proof (cases "insert_show ?row db")
    case (Inl e)
    with assms show ?thesis by (simp add: createShow_unfold)
  next
    case (Inr db1)
    have "consistent db1"
      by (rule consistent_insert_show [OF assms Inr]) simp
    then have "consistent (snd (createSeats uuid newId (is_totalSeats ins) db1))"
      by (rule consistent_createSeats)
    with Inr show ?thesis by (simp add: createShow_unfold)
  qed
qed

lemma createShow_row:
  assumes "fst (createShow newId uuid now ins db) = Inr sh"
  shows "availableSeats sh = totalSeats sh \<and> show_id sh = newId
         \<and> sh \<in> set (tbl_shows (snd (createShow newId uuid now ins db)))"
proof -
  let ?row = "\<lparr>show_id = newId, show_name = is_name ins, startTime = is_startTime ins,
                 totalSeats = is_totalSeats ins, availableSeats = is_totalSeats ins,
                 show_createdAt = now\<rparr>"
  show ?thesis
  proof (cases "insert_show ?row db")
    case (Inl e)
    with assms show ?thesis by (simp add: createShow_unfold)
  next
    case (Inr db1)
    then have db1: "db1 = db\<lparr>tbl_shows := tbl_shows db @ [?row]\<rparr>"
      by (auto simp: insert_show_def split: if_splits)
    from assms Inr have sh: "sh = ?row"
      by (simp add: createShow_unfold split: sum.splits)
    have "tbl_shows (snd (createSeats uuid newId (is_totalSeats ins) db1)) = tbl_shows db1"
      by (auto simp: createSeats_def insert_seats_def split: sum.splits if_splits)
    with Inr sh db1 show ?thesis by (simp add: createShow_unfold Let_def)
  qed
qed

lemma consistent_perform: "consistent db \<Longrightarrow> consistent (perform array_in op db)"
  by (cases op)
     (simp_all add: consistent_createShow consistent_attemptBooking consistent_lockSeats
        consistent_unlockSeats consistent_releaseExpiredLocks consistent_createBooking
        consistent_reapExpiredBookings)

lemma consistent_run: "consistent db \<Longrightarrow> consistent (run array_in ops db)"
  by (induction ops arbitrary: db) (simp_all add: consistent_perform)

text \<open>
  C3. From any state in which the keys of the seats table hold and every show's
  \<open>availableSeats\<close> equals its \<open>totalSeats\<close> minus the number of its \<open>BOOKED\<close> seats,
  any sequence of committed operations (show creation, atomic booking, lock, unlock,
  creation of a pending booking, and both reaper sweeps) leads to a state in which the
  equation holds again for every show, whether the operations return or raise and
  whatever the database reads as an array in \<open>unlockSeats\<close>; and a show that
  \<open>createShow\<close> returns has \<open>availableSeats = totalSeats\<close> and is in the shows table.
  Each operation is one step of the sequence, so the counter and the seats it counts
  change in the same step.
\<close>

theorem counter_invariant:
  assumes "pk_seats db" and "fk_seats db" and "counter_inv db"
  shows "counter_inv (run array_in ops db)
       \<and> (\<forall>sh. fst (createShow newId uuid now ins db) = Inr sh \<longrightarrow>
              availableSeats sh = totalSeats sh
              \<and> sh \<in> set (tbl_shows (snd (createShow newId uuid now ins db))))"
proof -
  from assms have "consistent db" by (simp add: consistent_def)
  then have "consistent (run array_in ops db)" by (rule consistent_run)
  then have "counter_inv (run array_in ops db)" by (simp add: consistent_def)
  with createShow_row show ?thesis by blast
qed

lemma run_ops0:
  "run array_in0 ops0 empty_db =
     \<lparr>tbl_shows = [\<lparr>show_id = ''sh'', show_name = ''x'', startTime = 900, totalSeats = 3,
                     availableSeats = 1, show_createdAt = 0\<rparr>],
      tbl_seats = [\<lparr>seat_id = ''si'', seat_showId = ''sh'', seatNumber = 1,
                     status = BOOKED, lockedUntil = None\<rparr>,
                   \<lparr>seat_id = ''sii'', seat_showId = ''sh'', seatNumber = 2,
                     status = BOOKED, lockedUntil = None\<rparr>,
                   \<lparr>seat_id = ''siii'', seat_showId = ''sh'', seatNumber = 3,
                     status = AVAILABLE, lockedUntil = None\<rparr>],
      tbl_bookings = [\<lparr>booking_id = ''a'', booking_showId = ''sh'', userId = None,
                        seatIds = [''si'', ''sii''], booking_status = CONFIRMED,
                        createdAt = 10, expiresAt = None\<rparr>]\<rparr>"
  by code_simp

lemma createShow_0:
  "fst (createShow ''sh'' uuid0 0 ins0 empty_db)
     = Inr \<lparr>show_id = ''sh'', show_name = ''x'', startTime = 900, totalSeats = 3,
            availableSeats = 3, show_createdAt = 0\<rparr>"
  by code_simp

theorem counter_invariant_witness:
  "pk_seats empty_db \<and> fk_seats empty_db \<and> counter_inv empty_db
   \<and> counter_inv (run array_in0 ops0 empty_db)
   \<and> map totalSeats (tbl_shows (run array_in0 ops0 empty_db)) = [3]
   \<and> map availableSeats (tbl_shows (run array_in0 ops0 empty_db)) = [1]
   \<and> booked_count ''sh'' (run array_in0 ops0 empty_db) = 2
   \<and> fst (createShow ''sh'' uuid0 0 ins0 empty_db)
       = Inr \<lparr>show_id = ''sh'', show_name = ''x'', startTime = 900, totalSeats = 3,
              availableSeats = 3, show_createdAt = 0\<rparr>
   \<and> \<lparr>show_id = ''sh'', show_name = ''x'', startTime = 900, totalSeats = 3,
       availableSeats = 3, show_createdAt = 0\<rparr>
       \<in> set (tbl_shows (snd (createShow ''sh'' uuid0 0 ins0 empty_db)))"
proof -
  have h: "pk_seats empty_db" "fk_seats empty_db" "counter_inv empty_db"
    by (simp_all add: pk_seats_def fk_seats_def counter_inv_def empty_db_def)
  note inst = counter_invariant [OF h, of array_in0 ops0 "''sh''" uuid0 0 ins0]
  have ev: "map totalSeats (tbl_shows (run array_in0 ops0 empty_db)) = [3]"
    "map availableSeats (tbl_shows (run array_in0 ops0 empty_db)) = [1]"
    "booked_count ''sh'' (run array_in0 ops0 empty_db) = 2"
    by (simp_all add: run_ops0 booked_count_def)
  from inst createShow_0 have new: "\<lparr>show_id = ''sh'', show_name = ''x'', startTime = 900, totalSeats = 3,
       availableSeats = 3, show_createdAt = 0\<rparr>
       \<in> set (tbl_shows (snd (createShow ''sh'' uuid0 0 ins0 empty_db)))"
    by blast
  show ?thesis
    by (intro conjI) (rule h inst [THEN conjunct1] ev createShow_0 new)+
qed

end
